theory Spec2Isabelle
  imports Main
begin

section \<open>The rule no-use-before-define: data model\<close>

text \<open>
  The rule reads an object graph built by the parser and the scope analyser and never
  writes to it. The embedding keeps the shape the code reads:
  \<^item> an AST node carries its own fields, the child nodes the rule looks at (\<open>init\<close>,
    \<open>right\<close>) and its \<open>parent\<close>; the ancestor chain of a tree node is finite and ends
    at the program root, so a node holds its chain. Of a child only the range is ever
    read, never its parent link, which a child held inside its parent leaves empty;
  \<^item> Scope objects are compared by identity (\<open>===\<close>), so \<open>variable.scope\<close>,
    \<open>reference.from\<close> and \<open>scope.variableScope\<close> are addresses, read through a store;
  \<^item> reading a property of \<open>undefined\<close> or \<open>null\<close> throws a TypeError: an optional
    field is an \<open>option\<close>, and every function that dereferences one returns
    \<open>error + 'a\<close>.
\<close>

datatype error = TypeError

datatype node = Node
  (node_type: string)
  (node_range: "int \<times> int")
  (node_name: "string option")
  (node_kind: "string option")
  (node_init: "node option")
  (node_right: "node option")
  (node_parent: "node option")

type_synonym addr = nat

record defn =
  def_type :: string
  def_parent :: "node option"

record variable =
  defs :: "defn list"
  identifiers :: "node list"
  scope :: addr

record reference =
  ref_identifier :: node
  ref_resolved :: "variable option"
  ref_init :: bool
  ref_from :: addr

datatype scope = Scope
  (scope_type: string)
  (variableScope: addr)
  (references: "reference list")
  (childScopes: "scope list")

type_synonym scope_store = "addr \<Rightarrow> scope"

text \<open>
  The value handed to \<open>parseOptions\<close> is any JavaScript value; numbers are only
  looked at through \<open>typeof\<close>, and an object is the list of its properties (a name
  occurs once), read with \<open>map_of\<close>. The four fields of the parsed options carry the prefix
  \<open>opt_\<close> (\<open>functions\<close> is a reserved word here).
\<close>

datatype js_value =
    JUndefined
  | JNull
  | JBoolean bool
  | JNumber int
  | JString string
  | JObject "(string \<times> js_value) list"

record policy =
  opt_functions :: bool
  opt_classes :: bool
  opt_variables :: bool
  opt_typedefs :: bool

record diagnostic =
  node :: node
  message :: string
  data :: node

section \<open>Helpers\<close>

text \<open>
  \<open>SENTINEL_TYPE\<close> and \<open>FOR_IN_OF_TYPE\<close> are anchored regular expressions over a
  finite language; \<open>test\<close> is membership in that language.
\<close>

definition SENTINEL_TYPE :: "string \<Rightarrow> bool" where
  "SENTINEL_TYPE t =
     (t \<in> set (concat (map (\<lambda>a. map (\<lambda>b. a @ b) [''Declaration'', ''Expression''])
                         [''Function'', ''Class'']))
      \<or> t = ''ArrowFunctionExpression''
      \<or> t = ''CatchClause''
      \<or> t = ''ImportDeclaration''
      \<or> t = ''ExportNamedDeclaration'')"

definition FOR_IN_OF_TYPE :: "string \<Rightarrow> bool" where
  "FOR_IN_OF_TYPE t = (t \<in> set (map (\<lambda>a. ''For'' @ a @ ''Statement'') [''In'', ''Of'']))"

text \<open>
  \<open>typeof\<close> of a value, and a property read \<open>options.f\<close> on a non-null object: a
  missing property reads as \<open>undefined\<close>.
\<close>

fun typeof :: "js_value \<Rightarrow> string" where
  "typeof JUndefined = ''undefined''"
| "typeof JNull = ''object''"
| "typeof (JBoolean _) = ''boolean''"
| "typeof (JNumber _) = ''number''"
| "typeof (JString _) = ''string''"
| "typeof (JObject _) = ''object''"

fun get_property :: "js_value \<Rightarrow> string \<Rightarrow> js_value" where
  "get_property (JObject obj) k = (case map_of obj k of None \<Rightarrow> JUndefined | Some v \<Rightarrow> v)"
| "get_property _ k = JUndefined"

definition parseOptions :: "js_value \<Rightarrow> policy" where
  "parseOptions options =
     (if typeof options = ''string'' then
        \<lparr>opt_functions = (options \<noteq> JString ''nofunc''),
         opt_classes = True, opt_variables = True, opt_typedefs = True\<rparr>
      else if typeof options = ''object'' \<and> options \<noteq> JNull then
        \<lparr>opt_functions = (get_property options ''functions'' \<noteq> JBoolean False),
         opt_classes = (get_property options ''classes'' \<noteq> JBoolean False),
         opt_variables = (get_property options ''variables'' \<noteq> JBoolean False),
         opt_typedefs = (get_property options ''typedefs'' \<noteq> JBoolean False)\<rparr>
      else
        \<lparr>opt_functions = True, opt_classes = True, opt_variables = True, opt_typedefs = True\<rparr>)"

text \<open>The rule's \<open>defaultOptions\<close>.\<close>

definition defaultOptions :: "js_value list" where
  "defaultOptions =
     [JObject [(''functions'', JBoolean True), (''classes'', JBoolean True),
               (''variables'', JBoolean True), (''typedefs'', JBoolean True)]]"

definition isTopLevelScope :: "scope \<Rightarrow> bool" where
  "isTopLevelScope s = (scope_type s = ''module'' \<or> scope_type s = ''global'')"

text \<open>\<open>variable.defs[0]\<close> is \<open>undefined\<close> on an empty list, and \<open>.type\<close> of it throws.\<close>

definition isFunction :: "variable \<Rightarrow> error + bool" where
  "isFunction v =
     (case defs v of
        [] \<Rightarrow> Inl TypeError
      | d # _ \<Rightarrow> Inr (def_type d = ''FunctionName''))"

definition isOuterClass :: "scope_store \<Rightarrow> variable \<Rightarrow> reference \<Rightarrow> error + bool" where
  "isOuterClass h v r =
     (case defs v of
        [] \<Rightarrow> Inl TypeError
      | d # _ \<Rightarrow>
          if def_type d \<noteq> ''ClassName'' then Inr False
          else if variableScope (h (scope v)) = variableScope (h (ref_from r)) then
            (if \<not> isTopLevelScope (h (variableScope (h (scope v)))) then Inr False
             else Inr True)
          else Inr True)"

definition isOuterVariable :: "scope_store \<Rightarrow> variable \<Rightarrow> reference \<Rightarrow> error + bool" where
  "isOuterVariable h v r =
     (case defs v of
        [] \<Rightarrow> Inl TypeError
      | d # _ \<Rightarrow>
          if def_type d \<noteq> ''Variable'' then Inr False
          else if variableScope (h (scope v)) = variableScope (h (ref_from r)) then
            (if \<not> isTopLevelScope (h (variableScope (h (scope v)))) then Inr False
             else Inr True)
          else Inr True)"

text \<open>
  \<open>&&\<close> short-circuits: \<open>defs[0].parent.kind\<close> is read only for a \<open>Variable\<close>
  definition, and throws when that definition has no parent.
\<close>

definition isType :: "variable \<Rightarrow> error + bool" where
  "isType v =
     (case defs v of
        [] \<Rightarrow> Inl TypeError
      | d # _ \<Rightarrow>
          if def_type d \<noteq> ''Variable'' then Inr False
          else (case def_parent d of
                  None \<Rightarrow> Inl TypeError
                | Some p \<Rightarrow> Inr (node_kind p = Some ''type'')))"

text \<open>
  \<open>node && ...\<close> yields the falsy \<open>node\<close> itself when there is none; every caller
  uses the result as a condition, so the model returns its truth value.
\<close>

definition isInRange :: "node option \<Rightarrow> int \<Rightarrow> bool" where
  "isInRange n location =
     (case n of
        None \<Rightarrow> False
      | Some m \<Rightarrow> fst (node_range m) \<le> location \<and> location \<le> snd (node_range m))"

text \<open>
  The \<open>while (node)\<close> loop of \<open>isInInitializer\<close>, one call per iteration;
  \<open>break\<close> leaves the loop for the final \<open>return false\<close>.
\<close>

fun isInInitializer_loop :: "node option \<Rightarrow> int \<Rightarrow> error + bool" where
  "isInInitializer_loop None location = Inr False"
| "isInInitializer_loop (Some (Node t rg nm k ini rt par)) location =
     (if t = ''VariableDeclarator'' then
        (if isInRange ini location then Inr True
         else (case par of
                 None \<Rightarrow> Inl TypeError
               | Some p \<Rightarrow>
                   (case node_parent p of
                      None \<Rightarrow> Inl TypeError
                    | Some g \<Rightarrow>
                        if FOR_IN_OF_TYPE (node_type g) \<and> isInRange (node_right g) location
                        then Inr True
                        else Inr False)))
      else if t = ''AssignmentPattern'' then
        (if isInRange rt location then Inr True
         else isInInitializer_loop par location)
      else if SENTINEL_TYPE t then Inr False
      else isInInitializer_loop par location)"

definition isInInitializer :: "variable \<Rightarrow> reference \<Rightarrow> error + bool" where
  "isInInitializer v r =
     (if scope v \<noteq> ref_from r then Inr False
      else (case identifiers v of
              [] \<Rightarrow> Inl TypeError
            | i # _ \<Rightarrow> isInInitializer_loop (node_parent i) (snd (node_range (ref_identifier r)))))"

section \<open>Rule definition\<close>

definition isForbidden :: "scope_store \<Rightarrow> policy \<Rightarrow> variable \<Rightarrow> reference \<Rightarrow> error + bool" where
  "isForbidden h options v r =
     (case isFunction v of
        Inl e \<Rightarrow> Inl e
      | Inr True \<Rightarrow> Inr (opt_functions options)
      | Inr False \<Rightarrow>
     (case isOuterClass h v r of
        Inl e \<Rightarrow> Inl e
      | Inr True \<Rightarrow> Inr (opt_classes options)
      | Inr False \<Rightarrow>
     (case isType v of
        Inl e \<Rightarrow> Inl e
      | Inr ty \<Rightarrow>
          if ty \<and> \<not> opt_typedefs options then Inr False
          else
     (case isOuterVariable h v r of
        Inl e \<Rightarrow> Inl e
      | Inr True \<Rightarrow> Inr (opt_variables options)
      | Inr False \<Rightarrow> Inr True))))"

text \<open>
  \<open>context.report\<close> hands a descriptor to the sink; the sink is the list of the
  descriptors reported so far.
\<close>

definition report :: "diagnostic \<Rightarrow> diagnostic list \<Rightarrow> diagnostic list" where
  "report d ctx = ctx @ [d]"

text \<open>
  The condition of the \<open>if\<close> in the callback of \<open>scope.references.forEach\<close>: the
  reference is skipped when it holds. \<open>||\<close> evaluates left to right and stops at the
  first true operand, so \<open>isInInitializer\<close> runs only when the first identifier of
  the variable ends before the reference does, and \<open>isForbidden\<close> only when nothing
  before it held.
\<close>

definition skips :: "scope_store \<Rightarrow> policy \<Rightarrow> reference \<Rightarrow> error + bool" where
  "skips h options r =
     (if ref_init r then Inr True
      else (case ref_resolved r of
              None \<Rightarrow> Inr True
            | Some v \<Rightarrow>
                (case identifiers v of
                   [] \<Rightarrow> Inr True
                 | i # _ \<Rightarrow>
                     (case (if snd (node_range i) < snd (node_range (ref_identifier r))
                            then (case isInInitializer v r of
                                    Inl e \<Rightarrow> Inl e
                                  | Inr b \<Rightarrow> Inr (\<not> b))
                            else Inr False) of
                        Inl e \<Rightarrow> Inl e
                      | Inr True \<Rightarrow> Inr True
                      | Inr False \<Rightarrow>
                          (case isForbidden h options v r of
                             Inl e \<Rightarrow> Inl e
                           | Inr b \<Rightarrow> Inr (\<not> b))))))"

text \<open>The callback itself: return when the condition holds, report otherwise.\<close>

definition visitReference ::
  "scope_store \<Rightarrow> policy \<Rightarrow> reference \<Rightarrow> diagnostic list \<Rightarrow> error + diagnostic list" where
  "visitReference h options r ctx =
     (case skips h options r of
        Inl e \<Rightarrow> Inl e
      | Inr True \<Rightarrow> Inr ctx
      | Inr False \<Rightarrow>
          Inr (report
                 \<lparr>node = ref_identifier r,
                  message = '''{{name}}' was used before it was defined.'',
                  data = ref_identifier r\<rparr>
                 ctx))"

text \<open>\<open>Array.prototype.forEach\<close>; an exception thrown by the callback ends it.\<close>

fun forEach :: "('a \<Rightarrow> 's \<Rightarrow> error + 's) \<Rightarrow> 'a list \<Rightarrow> 's \<Rightarrow> error + 's" where
  "forEach f [] s = Inr s"
| "forEach f (x # xs) s =
     (case f x s of
        Inl e \<Rightarrow> Inl e
      | Inr s' \<Rightarrow> forEach f xs s')"

text \<open>
  \<open>findVariablesInScope\<close>; \<open>findVariablesInScopes\<close> is
  \<open>scope.childScopes.forEach(findVariablesInScope)\<close>.
\<close>

fun findVariablesInScope ::
    "scope_store \<Rightarrow> policy \<Rightarrow> scope \<Rightarrow> diagnostic list \<Rightarrow> error + diagnostic list"
  and findVariablesInScopes ::
    "scope_store \<Rightarrow> policy \<Rightarrow> scope list \<Rightarrow> diagnostic list \<Rightarrow> error + diagnostic list"
where
  "findVariablesInScope h options (Scope ty vs refs children) ctx =
     (case forEach (visitReference h options) refs ctx of
        Inl e \<Rightarrow> Inl e
      | Inr ctx' \<Rightarrow> findVariablesInScopes h options children ctx')"
| "findVariablesInScopes h options [] ctx = Inr ctx"
| "findVariablesInScopes h options (c # cs) ctx =
     (case findVariablesInScope h options c ctx of
        Inl e \<Rightarrow> Inl e
      | Inr ctx' \<Rightarrow> findVariablesInScopes h options cs ctx')"

section \<open>Specification-side definitions\<close>

text \<open>
  The scopes of a tree in pre-order: a scope, then the subtrees of its children in
  the order of \<open>childScopes\<close>; and the number of scopes of a tree.
\<close>

fun preorder :: "scope \<Rightarrow> scope list" where
  "preorder (Scope ty vs refs children) =
     Scope ty vs refs children # concat (map preorder children)"

fun scope_count :: "scope \<Rightarrow> nat" where
  "scope_count (Scope ty vs refs children) = Suc (sum_list (map scope_count children))"

text \<open>The descriptor reported for a reference.\<close>

definition descriptor :: "reference \<Rightarrow> diagnostic" where
  "descriptor r =
     \<lparr>node = ref_identifier r,
      message = '''{{name}}' was used before it was defined.'',
      data = ref_identifier r\<rparr>"

text \<open>What one scope contributes: the descriptors of its own references that are
  not skipped, in the order of \<open>references\<close>; and whether one of them throws.\<close>

definition own_reports :: "scope_store \<Rightarrow> policy \<Rightarrow> scope \<Rightarrow> diagnostic list" where
  "own_reports h options s =
     map descriptor (filter (\<lambda>r. skips h options r = Inr False) (references s))"

definition throws :: "scope_store \<Rightarrow> policy \<Rightarrow> scope \<Rightarrow> bool" where
  "throws h options s = (\<exists>r \<in> set (references s). skips h options r = Inl TypeError)"

text \<open>
  The reporting condition in the words of the specification: the reference is not an
  initialisation, it is resolved, the variable has an identifier, it is not the case
  that the first identifier ends strictly before the reference's identifier while
  \<open>isInInitializer\<close> is false, and \<open>isForbidden\<close> is true.
\<close>

definition reportable :: "scope_store \<Rightarrow> policy \<Rightarrow> reference \<Rightarrow> bool" where
  "reportable h options r =
     (\<not> ref_init r \<and>
      (case ref_resolved r of
         None \<Rightarrow> False
       | Some v \<Rightarrow>
           identifiers v \<noteq> [] \<and>
           \<not> (snd (node_range (hd (identifiers v))) < snd (node_range (ref_identifier r))
              \<and> isInInitializer v r = Inr False) \<and>
           isForbidden h options v r = Inr True))"

text \<open>
  The initializer walk in the words of the specification, as a truth value. The
  sentinel kinds and the two loop kinds are listed by name.
\<close>

definition is_sentinel :: "string \<Rightarrow> bool" where
  "is_sentinel t =
     (t = ''FunctionDeclaration'' \<or> t = ''FunctionExpression''
      \<or> t = ''ClassDeclaration'' \<or> t = ''ClassExpression''
      \<or> t = ''ArrowFunctionExpression'' \<or> t = ''CatchClause''
      \<or> t = ''ImportDeclaration'' \<or> t = ''ExportNamedDeclaration'')"

definition is_for_in_of :: "string \<Rightarrow> bool" where
  "is_for_in_of t = (t = ''ForInStatement'' \<or> t = ''ForOfStatement'')"

definition grandparent :: "node \<Rightarrow> node option" where
  "grandparent n = (case node_parent n of None \<Rightarrow> None | Some p \<Rightarrow> node_parent p)"

fun in_initializer :: "node option \<Rightarrow> int \<Rightarrow> bool" where
  "in_initializer None location = False"
| "in_initializer (Some (Node t rg nm k ini rt par)) location =
     (if t = ''VariableDeclarator'' then
        (isInRange ini location \<or>
         (case grandparent (Node t rg nm k ini rt par) of
            None \<Rightarrow> False
          | Some g \<Rightarrow> is_for_in_of (node_type g) \<and> isInRange (node_right g) location))
      else if t = ''AssignmentPattern'' then
        (isInRange rt location \<or> in_initializer par location)
      else if is_sentinel t then False
      else in_initializer par location)"

text \<open>The nodes the initializer walk visits, in order, from a starting node.\<close>

fun reached :: "node option \<Rightarrow> int \<Rightarrow> node list" where
  "reached None location = []"
| "reached (Some (Node t rg nm k ini rt par)) location =
     Node t rg nm k ini rt par #
     (if t = ''VariableDeclarator'' then []
      else if t = ''AssignmentPattern'' then
        (if isInRange rt location then [] else reached par location)
      else if is_sentinel t then []
      else reached par location)"

text \<open>
  Well-formed input. Every \<open>VariableDeclarator\<close> reached by the initializer walk
  has a parent with a parent; the first definition of a variable exists, and has a
  parent node (the latter is only read for a \<open>Variable\<close> definition).
\<close>

definition declarators_ok :: "node option \<Rightarrow> int \<Rightarrow> bool" where
  "declarators_ok start location =
     (\<forall>n \<in> set (reached start location).
        node_type n = ''VariableDeclarator'' \<longrightarrow> grandparent n \<noteq> None)"

definition defs_ok :: "variable \<Rightarrow> bool" where
  "defs_ok v = (case defs v of [] \<Rightarrow> False | d # _ \<Rightarrow> def_parent d \<noteq> None)"

definition defs_readable :: "variable \<Rightarrow> bool" where
  "defs_readable v =
     (case defs v of
        [] \<Rightarrow> False
      | d # _ \<Rightarrow> def_type d = ''Variable'' \<longrightarrow> def_parent d \<noteq> None)"

definition reference_ok :: "(variable \<Rightarrow> bool) \<Rightarrow> reference \<Rightarrow> bool" where
  "reference_ok dok r =
     (case ref_resolved r of
        None \<Rightarrow> True
      | Some v \<Rightarrow>
          dok v \<and>
          (case identifiers v of
             [] \<Rightarrow> True
           | i # _ \<Rightarrow> declarators_ok (node_parent i) (snd (node_range (ref_identifier r)))))"

definition well_formed :: "scope \<Rightarrow> bool" where
  "well_formed s =
     (\<forall>c \<in> set (preorder s). \<forall>r \<in> set (references c). reference_ok defs_ok r)"

section \<open>Example programs\<close>

text \<open>
  The program \<^verbatim>\<open>a; var a = a; function f() { C; class C {} }\<close>: nodes with
  their ancestor chains, the two variables, the references, the global scope (address
  0), the scope of \<open>f\<close> (address 1) and, inside it, the scope of the class body.
\<close>

definition ex_program :: node where
  "ex_program = Node ''Program'' (0, 44) None None None None None"

definition ex_statement :: node where
  "ex_statement = Node ''ExpressionStatement'' (0, 2) None None None None (Some ex_program)"

definition ex_use_a :: node where
  "ex_use_a = Node ''Identifier'' (0, 1) (Some ''a'') None None None (Some ex_statement)"

definition ex_declaration :: node where
  "ex_declaration =
     Node ''VariableDeclaration'' (3, 13) None (Some ''var'') None None (Some ex_program)"

definition ex_declarator :: node where
  "ex_declarator =
     Node ''VariableDeclarator'' (7, 12) None None
       (Some (Node ''Identifier'' (11, 12) (Some ''a'') None None None None))
       None (Some ex_declaration)"

definition ex_def_a :: node where
  "ex_def_a = Node ''Identifier'' (7, 8) (Some ''a'') None None None (Some ex_declarator)"

definition ex_init_a :: node where
  "ex_init_a = Node ''Identifier'' (11, 12) (Some ''a'') None None None (Some ex_declarator)"

definition ex_var_a :: variable where
  "ex_var_a =
     \<lparr>defs = [\<lparr>def_type = ''Variable'', def_parent = Some ex_declaration\<rparr>],
      identifiers = [ex_def_a],
      scope = 0\<rparr>"

definition ex_ref_use_a :: reference where
  "ex_ref_use_a =
     \<lparr>ref_identifier = ex_use_a, ref_resolved = Some ex_var_a, ref_init = False, ref_from = 0\<rparr>"

definition ex_ref_def_a :: reference where
  "ex_ref_def_a =
     \<lparr>ref_identifier = ex_def_a, ref_resolved = Some ex_var_a, ref_init = True, ref_from = 0\<rparr>"

definition ex_ref_init_a :: reference where
  "ex_ref_init_a =
     \<lparr>ref_identifier = ex_init_a, ref_resolved = Some ex_var_a, ref_init = False, ref_from = 0\<rparr>"

definition ex_function :: node where
  "ex_function =
     Node ''FunctionDeclaration'' (14, 44) None None None None (Some ex_program)"

definition ex_body :: node where
  "ex_body = Node ''BlockStatement'' (27, 44) None None None None (Some ex_function)"

definition ex_use_C :: node where
  "ex_use_C =
     Node ''Identifier'' (29, 30) (Some ''C'') None None None
       (Some (Node ''ExpressionStatement'' (29, 31) None None None None (Some ex_body)))"

definition ex_def_C :: node where
  "ex_def_C =
     Node ''Identifier'' (38, 39) (Some ''C'') None None None
       (Some (Node ''ClassDeclaration'' (32, 42) None None None None (Some ex_body)))"

definition ex_var_C :: variable where
  "ex_var_C =
     \<lparr>defs = [\<lparr>def_type = ''ClassName'', def_parent = None\<rparr>],
      identifiers = [ex_def_C],
      scope = 1\<rparr>"

definition ex_ref_use_C :: reference where
  "ex_ref_use_C =
     \<lparr>ref_identifier = ex_use_C, ref_resolved = Some ex_var_C, ref_init = False, ref_from = 1\<rparr>"

text \<open>
  For the classifier alone: a function \<open>g\<close> declared at top level and called from
  \<open>f\<close>, a \<open>let\<close>-bound \<open>b\<close> used inside \<open>f\<close> before its declaration there, and
  a type alias \<open>T\<close> declared at top level and used inside \<open>f\<close>.
\<close>

definition ex_var_g :: variable where
  "ex_var_g =
     \<lparr>defs = [\<lparr>def_type = ''FunctionName'', def_parent = None\<rparr>],
      identifiers = [Node ''Identifier'' (60, 61) (Some ''g'') None None None None],
      scope = 0\<rparr>"

definition ex_ref_use_g :: reference where
  "ex_ref_use_g =
     \<lparr>ref_identifier = Node ''Identifier'' (33, 34) (Some ''g'') None None None None,
      ref_resolved = Some ex_var_g, ref_init = False, ref_from = 1\<rparr>"

definition ex_var_b :: variable where
  "ex_var_b =
     \<lparr>defs = [\<lparr>def_type = ''Variable'',
               def_parent = Some (Node ''VariableDeclaration'' (36, 42) None (Some ''let'')
                                   None None (Some ex_body))\<rparr>],
      identifiers = [Node ''Identifier'' (40, 41) (Some ''b'') None None None None],
      scope = 1\<rparr>"

definition ex_ref_use_b :: reference where
  "ex_ref_use_b =
     \<lparr>ref_identifier = Node ''Identifier'' (33, 34) (Some ''b'') None None None None,
      ref_resolved = Some ex_var_b, ref_init = False, ref_from = 1\<rparr>"

definition ex_var_T :: variable where
  "ex_var_T =
     \<lparr>defs = [\<lparr>def_type = ''Variable'',
               def_parent = Some (Node ''VariableDeclaration'' (50, 66) None (Some ''type'')
                                   None None (Some ex_program))\<rparr>],
      identifiers = [Node ''Identifier'' (55, 56) (Some ''T'') None None None None],
      scope = 0\<rparr>"

definition ex_ref_use_T :: reference where
  "ex_ref_use_T =
     \<lparr>ref_identifier = Node ''Identifier'' (33, 34) (Some ''T'') None None None None,
      ref_resolved = Some ex_var_T, ref_init = False, ref_from = 1\<rparr>"

definition ex_class_scope :: scope where
  "ex_class_scope = Scope ''class'' 1 [] []"

definition ex_function_scope :: scope where
  "ex_function_scope = Scope ''function'' 1 [ex_ref_use_C] [ex_class_scope]"

definition ex_global_scope :: scope where
  "ex_global_scope =
     Scope ''global'' 0 [ex_ref_use_a, ex_ref_def_a, ex_ref_init_a] [ex_function_scope]"

text \<open>The first two statements alone, \<^verbatim>\<open>a; var a = a;\<close>, as a program of their own.\<close>

definition ex_top_scope :: scope where
  "ex_top_scope = Scope ''global'' 0 [ex_ref_use_a, ex_ref_def_a, ex_ref_init_a] []"

definition ex_top_store :: scope_store where
  "ex_top_store a = ex_top_scope"

definition ex_store :: scope_store where
  "ex_store a = (if a = 1 then ex_function_scope else ex_global_scope)"

definition ex_options :: policy where
  "ex_options =
     \<lparr>opt_functions = True, opt_classes = True, opt_variables = True, opt_typedefs = True\<rparr>"

definition ex_options_off :: policy where
  "ex_options_off =
     \<lparr>opt_functions = False, opt_classes = False, opt_variables = False,
      opt_typedefs = False\<rparr>"

section \<open>Facts about the helpers\<close>

lemmas ex_defs =
  ex_global_scope_def ex_top_scope_def ex_top_store_def ex_function_scope_def ex_class_scope_def ex_ref_use_a_def ex_ref_def_a_def
  ex_ref_init_a_def ex_ref_use_C_def ex_var_a_def ex_var_C_def ex_store_def ex_options_def
  ex_options_off_def ex_var_g_def ex_ref_use_g_def ex_var_b_def ex_ref_use_b_def
  ex_var_T_def ex_ref_use_T_def
  ex_use_a_def ex_def_a_def ex_init_a_def ex_use_C_def ex_def_C_def ex_declarator_def
  ex_declaration_def ex_statement_def ex_program_def ex_body_def ex_function_def

lemmas code_defs =
  visitReference_def skips_def isInInitializer_def isForbidden_def isFunction_def
  isOuterClass_def isOuterVariable_def isType_def isTopLevelScope_def isInRange_def
  report_def

text \<open>The two regular expressions match exactly the listed kinds.\<close>

lemma SENTINEL_TYPE_is_sentinel: "SENTINEL_TYPE t = is_sentinel t"
  by (auto simp: SENTINEL_TYPE_def is_sentinel_def)

lemma FOR_IN_OF_TYPE_is_for_in_of: "FOR_IN_OF_TYPE t = is_for_in_of t"
  by (auto simp: FOR_IN_OF_TYPE_def is_for_in_of_def)

lemma error_is_TypeError: "(e::error) = TypeError"
  by (cases e) simp

lemma loop_true_iff:
  "(isInInitializer_loop start location = Inr True) = in_initializer start location"
  by (induction start location rule: isInInitializer_loop.induct)
     (auto simp: SENTINEL_TYPE_is_sentinel FOR_IN_OF_TYPE_is_for_in_of grandparent_def
           split: option.splits)

lemma loop_total:
  "declarators_ok start location \<Longrightarrow>
   isInInitializer_loop start location = Inr (in_initializer start location)"
  by (induction start location rule: isInInitializer_loop.induct)
     (auto simp: SENTINEL_TYPE_is_sentinel FOR_IN_OF_TYPE_is_for_in_of grandparent_def
                 declarators_ok_def
           split: option.splits)

section \<open>Configuration parsing\<close>

text \<open>
  C6: \<open>parseOptions\<close> maps the string \<open>"nofunc"\<close> to the policy with only
  \<open>functions\<close> disabled, and maps an object to the policy whose four fields are each
  false exactly when the object holds the boolean \<open>false\<close> under that name, and true
  otherwise (a missing property counts as enabled).
\<close>

theorem parseOptions_nofunc_and_object:
  "parseOptions (JString ''nofunc'') =
     \<lparr>opt_functions = False, opt_classes = True, opt_variables = True, opt_typedefs = True\<rparr>
   \<and> parseOptions (JObject obj) =
     \<lparr>opt_functions = (map_of obj ''functions'' \<noteq> Some (JBoolean False)),
      opt_classes = (map_of obj ''classes'' \<noteq> Some (JBoolean False)),
      opt_variables = (map_of obj ''variables'' \<noteq> Some (JBoolean False)),
      opt_typedefs = (map_of obj ''typedefs'' \<noteq> Some (JBoolean False))\<rparr>"
  by (auto simp: parseOptions_def split: option.splits)

theorem parseOptions_nofunc_and_object_witness:
  "parseOptions (JObject [(''classes'', JBoolean False), (''variables'', JNull)]) =
     \<lparr>opt_functions = True, opt_classes = False, opt_variables = True, opt_typedefs = True\<rparr>"
  using parseOptions_nofunc_and_object [of "[(''classes'', JBoolean False), (''variables'', JNull)]"]
  by simp

text \<open>
  C10: for every string other than \<open>"nofunc"\<close>, \<open>parseOptions\<close> returns the policy
  with all four categories enabled, the same as for no options at all (\<open>undefined\<close>,
  or the rule's default object).
\<close>

theorem parseOptions_other_string:
  assumes "s \<noteq> ''nofunc''"
  shows "parseOptions (JString s) =
           \<lparr>opt_functions = True, opt_classes = True, opt_variables = True, opt_typedefs = True\<rparr>
         \<and> parseOptions (JString s) = parseOptions JUndefined
         \<and> parseOptions (JString s) = parseOptions (hd defaultOptions)"
  using assms by (simp add: parseOptions_def defaultOptions_def)

theorem parseOptions_other_string_witness:
  "parseOptions (JString ''func'') =
     \<lparr>opt_functions = True, opt_classes = True, opt_variables = True, opt_typedefs = True\<rparr>
   \<and> parseOptions (JString ''func'') = parseOptions JUndefined
   \<and> parseOptions (JString ''func'') = parseOptions (hd defaultOptions)"
proof -
  have h: "''func'' \<noteq> ''nofunc''" by simp
  show ?thesis by (rule parseOptions_other_string [OF h])
qed

section \<open>The binding classifier\<close>

text \<open>
  C4: for a variable whose first definition is a \<open>FunctionName\<close>, \<open>isForbidden\<close>
  returns \<open>options.functions\<close>, for every reference, every scope store and whatever
  the other three fields of the policy are.
\<close>

theorem isForbidden_FunctionName:
  assumes "defs v = d # ds" and "def_type d = ''FunctionName''"
  shows "isForbidden h options v r = Inr (opt_functions options)"
  using assms by (simp add: isForbidden_def isFunction_def)

theorem isForbidden_FunctionName_witness:
  "isForbidden ex_store ex_options ex_var_g ex_ref_use_g = Inr True \<and>
   isForbidden ex_store (parseOptions (JString ''nofunc'')) ex_var_g ex_ref_use_g = Inr False"
proof -
  have g: "defs ex_var_g = \<lparr>def_type = ''FunctionName'', def_parent = None\<rparr> # []"
    by (simp add: ex_var_g_def)
  show ?thesis
    using isForbidden_FunctionName [OF g, of ex_store ex_options ex_ref_use_g]
      isForbidden_FunctionName [OF g, of ex_store "parseOptions (JString ''nofunc'')" ex_ref_use_g]
    by (simp add: ex_options_def parseOptions_def)
qed

text \<open>
  C3: when the variable and the reference have the same \<open>variableScope\<close> and that
  scope is neither \<open>global\<close> nor \<open>module\<close>, \<open>isForbidden\<close> returns true for a
  \<open>ClassName\<close> variable, and for a \<open>Variable\<close> one whose declaration kind is not
  \<open>type\<close>, whatever the policy is.
\<close>

theorem isForbidden_same_inner_scope:
  assumes "defs v = d # ds"
    and "variableScope (h (scope v)) = variableScope (h (ref_from r))"
    and "scope_type (h (variableScope (h (scope v)))) \<noteq> ''global''"
    and "scope_type (h (variableScope (h (scope v)))) \<noteq> ''module''"
    and "def_type d = ''ClassName'' \<or>
         (def_type d = ''Variable'' \<and> (\<exists>p. def_parent d = Some p \<and> node_kind p \<noteq> Some ''type''))"
  shows "isForbidden h options v r = Inr True"
  using assms
  by (auto simp: isForbidden_def isFunction_def isOuterClass_def isType_def
                 isOuterVariable_def isTopLevelScope_def)

theorem isForbidden_same_inner_scope_witness:
  "isForbidden ex_store ex_options_off ex_var_C ex_ref_use_C = Inr True \<and>
   isForbidden ex_store ex_options_off ex_var_b ex_ref_use_b = Inr True"
proof -
  have C: "defs ex_var_C = \<lparr>def_type = ''ClassName'', def_parent = None\<rparr> # []"
    by (simp add: ex_var_C_def)
  have b: "defs ex_var_b =
      \<lparr>def_type = ''Variable'',
       def_parent = Some (Node ''VariableDeclaration'' (36, 42) None (Some ''let'')
                            None None (Some ex_body))\<rparr> # []"
    by (simp add: ex_var_b_def)
  show ?thesis
    using isForbidden_same_inner_scope [OF C, of ex_store ex_ref_use_C ex_options_off]
      isForbidden_same_inner_scope [OF b, of ex_store ex_ref_use_b ex_options_off]
    by (simp add: ex_store_def ex_function_scope_def ex_var_C_def ex_ref_use_C_def
                  ex_var_b_def ex_ref_use_b_def)
qed

text \<open>
  C5: for a type alias (a \<open>Variable\<close> definition whose declaration has kind
  \<open>type\<close>), \<open>isForbidden\<close> returns false when \<open>options.typedefs\<close> is false; when it
  is true the alias is classified as an outer variable: \<open>options.variables\<close> if the
  \<open>variableScope\<close>s differ or the shared one is top level, forbidden otherwise.
\<close>

theorem isForbidden_type_alias:
  assumes "defs v = d # ds" and "def_type d = ''Variable''"
    and "def_parent d = Some p" and "node_kind p = Some ''type''"
  shows "isForbidden h options v r =
           Inr (if \<not> opt_typedefs options then False
                else if variableScope (h (scope v)) \<noteq> variableScope (h (ref_from r))
                        \<or> scope_type (h (variableScope (h (scope v)))) = ''global''
                        \<or> scope_type (h (variableScope (h (scope v)))) = ''module''
                     then opt_variables options
                else True)"
  using assms
  by (auto simp: isForbidden_def isFunction_def isOuterClass_def isType_def
                 isOuterVariable_def isTopLevelScope_def)

theorem isForbidden_type_alias_witness:
  "isForbidden ex_store ex_options_off ex_var_T ex_ref_use_T = Inr False \<and>
   isForbidden ex_store (ex_options\<lparr>opt_variables := False\<rparr>) ex_var_T ex_ref_use_T = Inr False \<and>
   isForbidden ex_store ex_options ex_var_T ex_ref_use_T = Inr True"
proof -
  have T: "defs ex_var_T =
      \<lparr>def_type = ''Variable'',
       def_parent = Some (Node ''VariableDeclaration'' (50, 66) None (Some ''type'')
                            None None (Some ex_program))\<rparr> # []"
    by (simp add: ex_var_T_def)
  show ?thesis
    using isForbidden_type_alias [OF T, of _ ex_store ex_options_off ex_ref_use_T]
      isForbidden_type_alias [OF T, of _ ex_store "ex_options\<lparr>opt_variables := False\<rparr>" ex_ref_use_T]
      isForbidden_type_alias [OF T, of _ ex_store ex_options ex_ref_use_T]
    by (simp add: ex_options_def ex_options_off_def ex_store_def ex_function_scope_def
                  ex_global_scope_def ex_var_T_def ex_ref_use_T_def)
qed

section \<open>The initializer walk\<close>

text \<open>
  C2: \<open>isInInitializer\<close> returns false when \<open>variable.scope\<close> is not
  \<open>reference.from\<close>. Otherwise it walks the parents of the first identifier with the
  end of the reference as location, and returns true exactly when the walk of the
  specification (\<open>in_initializer\<close>: true at a declarator whose initializer, or whose
  for-in/for-of grandparent's right-hand side, contains the location, stopping at the
  declarator; true at an assignment pattern whose right-hand side contains it, going
  on otherwise; false at a sentinel and at the end of the chain) is true; and when
  every declarator the walk reaches has a parent with a parent, it returns the result
  of that walk.
\<close>

theorem isInInitializer_walk:
  "(scope v \<noteq> ref_from r \<longrightarrow> isInInitializer v r = Inr False) \<and>
   (scope v = ref_from r \<and> identifiers v = i # rest \<longrightarrow>
      (isInInitializer v r = Inr True) =
        in_initializer (node_parent i) (snd (node_range (ref_identifier r))) \<and>
      (declarators_ok (node_parent i) (snd (node_range (ref_identifier r))) \<longrightarrow>
         isInInitializer v r =
           Inr (in_initializer (node_parent i) (snd (node_range (ref_identifier r))))))"
  by (simp add: isInInitializer_def loop_true_iff loop_total)

theorem isInInitializer_walk_witness:
  "isInInitializer ex_var_a ex_ref_init_a = Inr True \<and>
   isInInitializer ex_var_a ex_ref_use_a = Inr False \<and>
   isInInitializer ex_var_a ex_ref_use_C = Inr False"
proof -
  have same: "scope ex_var_a = ref_from ex_ref_init_a \<and> identifiers ex_var_a = ex_def_a # []"
    by (simp add: ex_var_a_def ex_ref_init_a_def)
  have same': "scope ex_var_a = ref_from ex_ref_use_a \<and> identifiers ex_var_a = ex_def_a # []"
    by (simp add: ex_var_a_def ex_ref_use_a_def)
  have other: "scope ex_var_a \<noteq> ref_from ex_ref_use_C"
    by (simp add: ex_var_a_def ex_ref_use_C_def)
  have ok: "declarators_ok (node_parent ex_def_a) (snd (node_range (ref_identifier ex_ref_use_a)))"
    by (simp add: declarators_ok_def grandparent_def ex_defs)
  show ?thesis
    using isInInitializer_walk [of ex_var_a ex_ref_init_a ex_def_a "[]"]
      isInInitializer_walk [of ex_var_a ex_ref_use_a ex_def_a "[]"]
      isInInitializer_walk [of ex_var_a ex_ref_use_C] same same' other ok
    by (simp add: ex_defs isInRange_def grandparent_def is_for_in_of_def)
qed

section \<open>The scope walker\<close>

text \<open>
  The callback reports the descriptor of a reference that is not skipped and leaves the
  sink alone otherwise; the walk is then known exactly: it throws when a reference of
  some scope of the tree throws, and otherwise appends, scope by scope in pre-order,
  the descriptors of the references that are not skipped.
\<close>

lemma visitReference_cases:
  "visitReference h options r ctx =
     (case skips h options r of
        Inl e \<Rightarrow> Inl e
      | Inr b \<Rightarrow> Inr (if b then ctx else ctx @ [descriptor r]))"
  by (simp add: visitReference_def report_def descriptor_def split: sum.splits bool.splits)

lemma forEach_visitReference:
  "forEach (visitReference h options) refs ctx =
     (if \<exists>r \<in> set refs. skips h options r = Inl TypeError then Inl TypeError
      else Inr (ctx @ map descriptor (filter (\<lambda>r. skips h options r = Inr False) refs)))"
proof (induction refs arbitrary: ctx)
  case Nil
  show ?case by simp
next
  case (Cons r refs)
  show ?case
  proof (cases "skips h options r")
    case (Inl e)
    then have "visitReference h options r ctx = Inl TypeError"
      by (simp add: visitReference_cases [of h options r ctx] error_is_TypeError)
    with Inl show ?thesis
      by (auto simp: error_is_TypeError)
  next
    case (Inr b)
    then have "visitReference h options r ctx = Inr (if b then ctx else ctx @ [descriptor r])"
      by (simp add: visitReference_cases [of h options r ctx])
    with Inr show ?thesis
      by (cases b) (simp_all add: Cons.IH)
  qed
qed

lemma own_reports_Scope:
  "own_reports h options (Scope ty vs refs children) =
     map descriptor (filter (\<lambda>r. skips h options r = Inr False) refs)"
  by (simp add: own_reports_def)

lemma throws_Scope:
  "throws h options (Scope ty vs refs children) =
     (\<exists>r \<in> set refs. skips h options r = Inl TypeError)"
  by (simp add: throws_def)

lemma walk_exact:
  shows "findVariablesInScope h options s ctx =
     (if \<exists>c \<in> set (preorder s). throws h options c then Inl TypeError
      else Inr (ctx @ concat (map (own_reports h options) (preorder s))))"
  and "findVariablesInScopes h options ss ctx =
     (if \<exists>c \<in> set (concat (map preorder ss)). throws h options c then Inl TypeError
      else Inr (ctx @ concat (map (own_reports h options) (concat (map preorder ss)))))"
proof (induction h options s ctx and h options ss ctx
       rule: findVariablesInScope_findVariablesInScopes.induct)
  case (1 h options ty vs refs children ctx)
  show ?case
  proof (cases "\<exists>r \<in> set refs. skips h options r = Inl TypeError")
    case True
    then show ?thesis
      by (simp add: forEach_visitReference throws_Scope)
  next
    case False
    then have fe: "forEach (visitReference h options) refs ctx =
        Inr (ctx @ map descriptor (filter (\<lambda>r. skips h options r = Inr False) refs))"
      by (simp add: forEach_visitReference)
    show ?thesis
      using False by (simp add: fe "1.IH"[OF fe] throws_Scope own_reports_Scope)
  qed
next
  case (2 h options ctx)
  show ?case by simp
next
  case (3 h options c cs ctx)
  show ?case
  proof (cases "\<exists>x \<in> set (preorder c). throws h options x")
    case True
    then show ?thesis
      by (simp add: "3.IH"(1)) blast
  next
    case False
    then have fe: "findVariablesInScope h options c ctx =
        Inr (ctx @ concat (map (own_reports h options) (preorder c)))"
      by (simp add: "3.IH"(1))
    show ?thesis
      using False by (simp add: fe "3.IH"(2)[OF fe]) blast
  qed
qed

lemma skips_reportable:
  "skips h options r \<noteq> Inl TypeError \<Longrightarrow>
   (skips h options r = Inr False) = reportable h options r"
  by (auto simp: skips_def reportable_def error_is_TypeError
           split: if_splits option.splits list.splits sum.splits bool.splits)

lemma skips_init_unresolved:
  "ref_init r \<or> ref_resolved r = None \<Longrightarrow> skips h options r = Inr True"
  by (auto simp: skips_def)

lemma own_reports_reportable:
  assumes "\<not> throws h options c"
  shows "own_reports h options c = map descriptor (filter (reportable h options) (references c))"
proof -
  from assms
  have "\<forall>r \<in> set (references c). (skips h options r = Inr False) = reportable h options r"
    by (auto simp: throws_def skips_reportable)
  then have "filter (\<lambda>r. skips h options r = Inr False) (references c) =
             filter (reportable h options) (references c)"
    by (intro filter_cong) auto
  then show ?thesis by (simp add: own_reports_def)
qed

lemma walk_returns:
  assumes "findVariablesInScope h options s ctx = Inr ctx'"
  shows "\<forall>c \<in> set (preorder s). \<not> throws h options c"
    and "ctx' = ctx @ concat (map (own_reports h options) (preorder s))"
  using assms by (simp_all add: walk_exact(1) split: if_splits)

lemma walk_reportable:
  assumes "findVariablesInScope h options s ctx = Inr ctx'"
  shows "ctx' = ctx @ concat (map (\<lambda>c. map descriptor (filter (reportable h options) (references c)))
                                  (preorder s))"
proof -
  have "map (own_reports h options) (preorder s) =
        map (\<lambda>c. map descriptor (filter (reportable h options) (references c))) (preorder s)"
    using walk_returns(1) [OF assms] by (intro map_cong) (auto simp: own_reports_reportable)
  with walk_returns(2) [OF assms] show ?thesis by simp
qed

lemma visitReference_reportable:
  assumes "visitReference h options r ctx = Inr ctx'"
  shows "ctx' = (if reportable h options r then ctx @ [descriptor r] else ctx)"
proof -
  from assms obtain b where b: "skips h options r = Inr b"
    by (auto simp: visitReference_cases [of h options r ctx] split: sum.splits)
  then have "reportable h options r = (\<not> b)"
    using skips_reportable [of h options r] by auto
  with assms b show ?thesis
    by (auto simp: visitReference_cases [of h options r ctx])
qed

subsection \<open>When the walk returns\<close>

text \<open>
  \<open>defs[0].parent\<close> is read for a \<open>Variable\<close> definition only, so the walk needs
  less than \<open>defs_ok\<close> asks for: \<open>defs_readable\<close> is enough.
\<close>

lemma defs_ok_readable: "defs_ok v \<Longrightarrow> defs_readable v"
  by (simp add: defs_ok_def defs_readable_def split: list.splits)

lemma reference_ok_readable: "reference_ok defs_ok r \<Longrightarrow> reference_ok defs_readable r"
  by (auto simp: reference_ok_def defs_ok_readable split: option.splits)

lemma isForbidden_total:
  assumes "defs_readable v"
  shows "\<exists>b. isForbidden h options v r = Inr b"
proof (cases "defs v")
  case Nil
  with assms show ?thesis by (simp add: defs_readable_def)
next
  case (Cons d ds)
  show ?thesis
  proof (cases "def_type d = ''Variable''")
    case True
    with assms Cons obtain p where "def_parent d = Some p"
      by (auto simp: defs_readable_def)
    with True Cons show ?thesis
      by (auto simp: isForbidden_def isFunction_def isOuterClass_def isType_def
                     isOuterVariable_def split: bool.splits)
  next
    case False
    with Cons show ?thesis
      by (auto simp: isForbidden_def isFunction_def isOuterClass_def isType_def
                     isOuterVariable_def split: bool.splits)
  qed
qed

lemma isInInitializer_total:
  assumes "identifiers v = i # rest"
    and "declarators_ok (node_parent i) (snd (node_range (ref_identifier r)))"
  shows "\<exists>b. isInInitializer v r = Inr b"
  using assms by (auto simp: isInInitializer_def loop_total)

lemma skips_total:
  assumes "reference_ok defs_readable r"
  shows "\<exists>b. skips h options r = Inr b"
proof (cases "ref_resolved r")
  case None
  then show ?thesis by (auto simp: skips_def)
next
  case (Some v)
  with assms have dr: "defs_readable v" by (simp add: reference_ok_def)
  from isForbidden_total [OF dr] obtain f where f: "isForbidden h options v r = Inr f"
    by blast
  show ?thesis
  proof (cases "identifiers v")
    case Nil
    with Some show ?thesis by (auto simp: skips_def)
  next
    case (Cons i rest)
    with assms Some
    have "declarators_ok (node_parent i) (snd (node_range (ref_identifier r)))"
      by (simp add: reference_ok_def)
    from isInInitializer_total [OF Cons this] obtain b where "isInInitializer v r = Inr b"
      by blast
    with Some Cons f show ?thesis
      by (auto simp: skips_def split: bool.splits)
  qed
qed

lemma walk_total:
  assumes "\<forall>c \<in> set (preorder s). \<forall>r \<in> set (references c). reference_ok defs_readable r"
  shows "\<exists>ctx'. findVariablesInScope h options s ctx = Inr ctx'"
proof -
  have "\<forall>c \<in> set (preorder s). \<not> throws h options c"
  proof (intro ballI notI)
    fix c
    assume c: "c \<in> set (preorder s)" and "throws h options c"
    then obtain r where r: "r \<in> set (references c)" and "skips h options r = Inl TypeError"
      by (auto simp: throws_def)
    moreover from assms c r have "\<exists>b. skips h options r = Inr b"
      by (intro skips_total) blast
    ultimately show False by auto
  qed
  then show ?thesis by (simp add: walk_exact(1))
qed

subsection \<open>The example programs, run\<close>

lemma ex_global_run:
  "findVariablesInScope ex_store ex_options ex_global_scope [] =
     Inr [descriptor ex_ref_use_a, descriptor ex_ref_init_a, descriptor ex_ref_use_C]"
  by (simp add: ex_defs code_defs descriptor_def)

lemma ex_top_run:
  "findVariablesInScope ex_top_store ex_options ex_top_scope [] =
     Inr [\<lparr>node = ex_use_a, message = '''{{name}}' was used before it was defined.'',
           data = ex_use_a\<rparr>,
          \<lparr>node = ex_init_a, message = '''{{name}}' was used before it was defined.'',
           data = ex_init_a\<rparr>]"
  by (simp add: ex_defs code_defs)

lemma ex_top_well_formed: "well_formed ex_top_scope"
  by (simp add: well_formed_def reference_ok_def defs_ok_def declarators_ok_def
                grandparent_def isInRange_def is_sentinel_def ex_defs)

text \<open>
  C1: a diagnostic is emitted for a reference of a scope of the tree exactly when the
  reference is not an initialisation, is resolved, its variable has an identifier, it
  is not the case that the first identifier ends strictly before the reference's
  identifier while \<open>isInInitializer\<close> is false, and \<open>isForbidden\<close> is true
  (\<open>reportable\<close>). On well-formed input the walk returns, having appended the
  descriptors of exactly the reportable references of the tree; every walk that
  returns has done so, and so has every call of the callback on its one reference. An
  initialisation and an unresolved reference are never reported.
\<close>

theorem findVariablesInScope_reports_iff:
  "(well_formed s \<longrightarrow>
      findVariablesInScope h options s ctx =
        Inr (ctx @ concat (map (\<lambda>c. map descriptor (filter (reportable h options) (references c)))
                               (preorder s))))
   \<and> (findVariablesInScope h options s ctx = Inr ctx' \<longrightarrow>
      ctx' = ctx @ concat (map (\<lambda>c. map descriptor (filter (reportable h options) (references c)))
                               (preorder s)))
   \<and> (reference_ok defs_ok r \<longrightarrow>
      visitReference h options r ctx =
        Inr (if reportable h options r then ctx @ [descriptor r] else ctx))
   \<and> (visitReference h options r ctx = Inr ctx'' \<longrightarrow>
      ctx'' = (if reportable h options r then ctx @ [descriptor r] else ctx))
   \<and> (ref_init r \<or> ref_resolved r = None \<longrightarrow> visitReference h options r ctx = Inr ctx)"
proof (intro conjI impI)
  assume "well_formed s"
  then have "\<forall>c \<in> set (preorder s). \<forall>r \<in> set (references c). reference_ok defs_readable r"
    by (auto simp: well_formed_def reference_ok_readable)
  then obtain out where out: "findVariablesInScope h options s ctx = Inr out"
    using walk_total by blast
  with walk_reportable [OF out]
  show "findVariablesInScope h options s ctx =
        Inr (ctx @ concat (map (\<lambda>c. map descriptor (filter (reportable h options) (references c)))
                               (preorder s)))"
    by simp
next
  assume "findVariablesInScope h options s ctx = Inr ctx'"
  then show "ctx' = ctx @ concat (map (\<lambda>c. map descriptor
                 (filter (reportable h options) (references c))) (preorder s))"
    by (rule walk_reportable)
next
  assume "reference_ok defs_ok r"
  then have "\<exists>b. skips h options r = Inr b"
    by (intro skips_total reference_ok_readable)
  then obtain out where out: "visitReference h options r ctx = Inr out"
    by (auto simp: visitReference_cases [of h options r ctx])
  with visitReference_reportable [OF out]
  show "visitReference h options r ctx =
        Inr (if reportable h options r then ctx @ [descriptor r] else ctx)"
    by simp
next
  assume "visitReference h options r ctx = Inr ctx''"
  then show "ctx'' = (if reportable h options r then ctx @ [descriptor r] else ctx)"
    by (rule visitReference_reportable)
next
  assume "ref_init r \<or> ref_resolved r = None"
  then have "skips h options r = Inr True"
    by (rule skips_init_unresolved)
  then show "visitReference h options r ctx = Inr ctx"
    by (simp add: visitReference_cases [of h options r ctx])
qed

theorem findVariablesInScope_reports_iff_witness:
  "findVariablesInScope ex_store ex_options ex_global_scope [] =
     Inr [descriptor ex_ref_use_a, descriptor ex_ref_init_a, descriptor ex_ref_use_C]
   \<and> [descriptor ex_ref_use_a, descriptor ex_ref_init_a, descriptor ex_ref_use_C] =
       [] @ concat (map (\<lambda>c. map descriptor (filter (reportable ex_store ex_options) (references c)))
                        (preorder ex_global_scope))
   \<and> findVariablesInScope ex_top_store ex_options ex_top_scope [] =
       Inr ([] @ concat (map (\<lambda>c. map descriptor
                                     (filter (reportable ex_top_store ex_options) (references c)))
                             (preorder ex_top_scope)))
   \<and> visitReference ex_store ex_options ex_ref_def_a [] = Inr []"
proof -
  have init: "ref_init ex_ref_def_a \<or> ref_resolved ex_ref_def_a = None"
    by (simp add: ex_ref_def_a_def)
  show ?thesis
    using findVariablesInScope_reports_iff [of ex_global_scope ex_store ex_options "[]"
        "[descriptor ex_ref_use_a, descriptor ex_ref_init_a, descriptor ex_ref_use_C]"
        ex_ref_def_a]
      findVariablesInScope_reports_iff [of ex_top_scope ex_top_store ex_options "[]"]
      ex_global_run ex_top_well_formed init
    by blast
qed

subsection \<open>What is reported\<close>

lemma descriptor_fields:
  "node (descriptor r) = ref_identifier r"
  "message (descriptor r) = '''{{name}}' was used before it was defined.''"
  "data (descriptor r) = ref_identifier r"
  by (simp_all add: descriptor_def)

text \<open>
  For \<^verbatim>\<open>a; var a = a;\<close> the walk reports two descriptors. The \<open>data\<close> of the
  first is the identifier node of the use itself, with its \<open>type\<close>, \<open>range\<close> and
  \<open>parent\<close>, not a record holding the name alone; and its \<open>message\<close> is the
  template as written, not the text with \<open>a\<close> put in.
\<close>

theorem reported_descriptor_counterexample:
  "findVariablesInScope ex_top_store ex_options ex_top_scope [] =
     Inr [\<lparr>node = ex_use_a, message = '''{{name}}' was used before it was defined.'',
           data = ex_use_a\<rparr>,
          \<lparr>node = ex_init_a, message = '''{{name}}' was used before it was defined.'',
           data = ex_init_a\<rparr>]
   \<and> node_name ex_use_a = Some ''a''
   \<and> node_type ex_use_a = ''Identifier''
   \<and> node_range ex_use_a = (0, 1)
   \<and> node_parent ex_use_a = Some ex_statement
   \<and> '''{{name}}' was used before it was defined.'' \<noteq> '''a' was used before it was defined.''"
  by (simp add: ex_top_run) (simp add: ex_use_a_def)

text \<open>
  C7 (as the code has it): every diagnostic emitted by the walk has \<open>node\<close> equal to
  the identifier node of a reference of the tree, \<open>message\<close> equal to the template
  \<^verbatim>\<open>'{{name}}' was used before it was defined.\<close> left as it is, and \<open>data\<close>
  equal to that same identifier node, whose name is the identifier's name; the walk
  does nothing else: what the sink held before is still there, in front.
\<close>

theorem reported_descriptor:
  "findVariablesInScope h options s ctx = Inr ctx' \<longrightarrow>
     (\<exists>ds. ctx' = ctx @ ds \<and>
        (\<forall>d \<in> set ds. \<exists>c \<in> set (preorder s). \<exists>r \<in> set (references c).
            node d = ref_identifier r \<and>
            message d = '''{{name}}' was used before it was defined.'' \<and>
            data d = ref_identifier r \<and>
            node_name (data d) = node_name (ref_identifier r)))"
proof
  assume run: "findVariablesInScope h options s ctx = Inr ctx'"
  let ?ds = "concat (map (\<lambda>c. map descriptor (filter (reportable h options) (references c)))
                         (preorder s))"
  have "ctx' = ctx @ ?ds"
    by (rule walk_reportable [OF run])
  moreover have "\<forall>d \<in> set ?ds. \<exists>c \<in> set (preorder s). \<exists>r \<in> set (references c).
            node d = ref_identifier r \<and>
            message d = '''{{name}}' was used before it was defined.'' \<and>
            data d = ref_identifier r \<and>
            node_name (data d) = node_name (ref_identifier r)"
    by (auto simp: descriptor_fields)
  ultimately show "\<exists>ds. ctx' = ctx @ ds \<and>
        (\<forall>d \<in> set ds. \<exists>c \<in> set (preorder s). \<exists>r \<in> set (references c).
            node d = ref_identifier r \<and>
            message d = '''{{name}}' was used before it was defined.'' \<and>
            data d = ref_identifier r \<and>
            node_name (data d) = node_name (ref_identifier r))"
    by blast
qed

theorem reported_descriptor_witness:
  "\<exists>ds. findVariablesInScope ex_top_store ex_options ex_top_scope [] = Inr ([] @ ds) \<and>
        list_all (\<lambda>d. message d = '''{{name}}' was used before it was defined.'' \<and>
                       data d = node d) ds"
proof -
  from reported_descriptor [of ex_top_store ex_options ex_top_scope "[]"] ex_top_run
  obtain ds where ds: "findVariablesInScope ex_top_store ex_options ex_top_scope [] = Inr ([] @ ds)"
    and all: "\<forall>d \<in> set ds. \<exists>c \<in> set (preorder ex_top_scope). \<exists>r \<in> set (references c).
            node d = ref_identifier r \<and>
            message d = '''{{name}}' was used before it was defined.'' \<and>
            data d = ref_identifier r \<and>
            node_name (data d) = node_name (ref_identifier r)"
    by (metis append_Nil)
  from all have "list_all (\<lambda>d. message d = '''{{name}}' was used before it was defined.'' \<and>
                       data d = node d) ds"
    unfolding list_all_iff by fastforce
  with ds show ?thesis by blast
qed

subsection \<open>Order and re-runs\<close>

lemma preorder_unfold: "preorder s = s # concat (map preorder (childScopes s))"
  by (cases s) simp

lemma length_preorder:
  "length (preorder s) = scope_count s"
  by (induction s rule: preorder.induct) (simp add: length_concat comp_def cong: map_cong)

text \<open>
  C8: the outcome of the walk is a function of the scope graph and the policy alone: it
  throws or not whatever the sink holds, and otherwise appends one fixed sequence, so a
  second run over the same graph appends the same sequence again. That sequence follows
  the pre-order of the scope tree: the reports of a scope's own references in the order
  of \<open>references\<close>, then those of the subtrees of its children in the order of
  \<open>childScopes\<close>; the pre-order lists every scope of the tree once.
\<close>

theorem walk_deterministic_preorder:
  "findVariablesInScope h options s ctx =
     (if \<exists>c \<in> set (preorder s). throws h options c then Inl TypeError
      else Inr (ctx @ concat (map (own_reports h options) (preorder s))))
   \<and> (findVariablesInScope h options s ctx = Inr (ctx @ ds)
        \<longrightarrow> findVariablesInScope h options s ctx2 = Inr (ctx2 @ ds))
   \<and> preorder s = s # concat (map preorder (childScopes s))
   \<and> length (preorder s) = scope_count s"
proof -
  have exact: "findVariablesInScope h options s ctx =
     (if \<exists>c \<in> set (preorder s). throws h options c then Inl TypeError
      else Inr (ctx @ concat (map (own_reports h options) (preorder s))))"
    by (rule walk_exact(1))
  have rerun: "findVariablesInScope h options s ctx = Inr (ctx @ ds)
        \<longrightarrow> findVariablesInScope h options s ctx2 = Inr (ctx2 @ ds)"
    by (simp add: walk_exact(1) [of h options s])
  show ?thesis
    using exact rerun preorder_unfold [of s] length_preorder [of s] by blast
qed

theorem walk_deterministic_preorder_witness:
  "findVariablesInScope ex_store ex_options ex_global_scope [] =
     Inr ([] @ [descriptor ex_ref_use_a, descriptor ex_ref_init_a, descriptor ex_ref_use_C])
   \<and> findVariablesInScope ex_store ex_options ex_global_scope
        [descriptor ex_ref_use_a, descriptor ex_ref_init_a, descriptor ex_ref_use_C] =
     Inr ([descriptor ex_ref_use_a, descriptor ex_ref_init_a, descriptor ex_ref_use_C] @
          [descriptor ex_ref_use_a, descriptor ex_ref_init_a, descriptor ex_ref_use_C])
   \<and> preorder ex_global_scope = [ex_global_scope, ex_function_scope, ex_class_scope]
   \<and> scope_count ex_global_scope = 3"
proof -
  have run: "findVariablesInScope ex_store ex_options ex_global_scope [] =
     Inr ([] @ [descriptor ex_ref_use_a, descriptor ex_ref_init_a, descriptor ex_ref_use_C])"
    using ex_global_run by simp
  have pre: "preorder ex_global_scope = [ex_global_scope, ex_function_scope, ex_class_scope]"
    by (simp add: ex_global_scope_def ex_function_scope_def ex_class_scope_def)
  show ?thesis
    using walk_deterministic_preorder [of ex_store ex_options ex_global_scope "[]"
        "[descriptor ex_ref_use_a, descriptor ex_ref_init_a, descriptor ex_ref_use_C]"
        "[descriptor ex_ref_use_a, descriptor ex_ref_init_a, descriptor ex_ref_use_C]"]
      run pre
    by (metis length_Cons list.size(3) numeral_3_eq_3)
qed

section \<open>Totality on well-formed input\<close>

text \<open>
  Alone, \<open>isInInitializer\<close> reads \<open>identifiers[0]\<close> and throws for a variable of the
  reference's own scope that has no identifier. The callback tests
  \<open>identifiers.length === 0\<close> before it calls \<open>isInInitializer\<close>, so the walk never
  makes that call.
\<close>

lemma isInInitializer_no_identifier:
  "scope v = ref_from r \<Longrightarrow> identifiers v = [] \<Longrightarrow> isInInitializer v r = Inl TypeError"
  by (simp add: isInInitializer_def)

text \<open>
  C9: on well-formed input (every resolved variable has a first definition with a
  parent node, every \<open>VariableDeclarator\<close> reached by the initializer walk has a
  parent with a parent) the walk returns, and so does every call of the callback: no
  error branch is reached. So do \<open>isForbidden\<close> for such a variable, and
  \<open>isInInitializer\<close> for a variable with an identifier, which is how the walk
  calls it. \<open>isInRange\<close> is total, and true exactly when the node exists and its
  range contains the location.
\<close>

theorem core_total:
  "(well_formed s \<longrightarrow> (\<exists>ctx'. findVariablesInScope h options s ctx = Inr ctx'))
   \<and> (reference_ok defs_ok r \<longrightarrow> (\<exists>ctx'. visitReference h options r ctx = Inr ctx'))
   \<and> (defs_ok v \<longrightarrow> (\<exists>b. isForbidden h options v r = Inr b))
   \<and> (identifiers v = i # rest
        \<and> declarators_ok (node_parent i) (snd (node_range (ref_identifier r)))
        \<longrightarrow> (\<exists>b. isInInitializer v r = Inr b))
   \<and> isInRange n location =
        (\<exists>m. n = Some m \<and> fst (node_range m) \<le> location \<and> location \<le> snd (node_range m))"
proof (intro conjI impI)
  assume "well_formed s"
  then have "\<forall>c \<in> set (preorder s). \<forall>r \<in> set (references c). reference_ok defs_readable r"
    by (auto simp: well_formed_def reference_ok_readable)
  then show "\<exists>ctx'. findVariablesInScope h options s ctx = Inr ctx'"
    by (rule walk_total)
next
  assume "reference_ok defs_ok r"
  then have "\<exists>b. skips h options r = Inr b"
    by (intro skips_total reference_ok_readable)
  then show "\<exists>ctx'. visitReference h options r ctx = Inr ctx'"
    by (auto simp: visitReference_cases [of h options r ctx])
next
  assume "defs_ok v"
  then show "\<exists>b. isForbidden h options v r = Inr b"
    by (intro isForbidden_total defs_ok_readable)
next
  assume "identifiers v = i # rest
        \<and> declarators_ok (node_parent i) (snd (node_range (ref_identifier r)))"
  then show "\<exists>b. isInInitializer v r = Inr b"
    by (auto intro: isInInitializer_total)
next
  show "isInRange n location =
        (\<exists>m. n = Some m \<and> fst (node_range m) \<le> location \<and> location \<le> snd (node_range m))"
    by (cases n) (simp_all add: isInRange_def)
qed

theorem core_total_witness:
  "well_formed ex_top_scope
   \<and> (\<exists>ctx'. findVariablesInScope ex_top_store ex_options ex_top_scope [] = Inr ctx')
   \<and> defs_ok ex_var_a
   \<and> (\<exists>b. isForbidden ex_top_store ex_options ex_var_a ex_ref_init_a = Inr b)
   \<and> (\<exists>b. isInInitializer ex_var_a ex_ref_init_a = Inr b)"
proof -
  have d: "defs_ok ex_var_a"
    by (simp add: defs_ok_def ex_var_a_def)
  have i: "identifiers ex_var_a = ex_def_a # []
        \<and> declarators_ok (node_parent ex_def_a) (snd (node_range (ref_identifier ex_ref_init_a)))"
    by (simp add: declarators_ok_def grandparent_def ex_defs)
  show ?thesis
    using core_total [of ex_top_scope ex_top_store ex_options "[]" ex_ref_init_a ex_var_a
        ex_def_a "[]"] ex_top_well_formed d i
    by blast
qed

end
